theory Spec2Isabelle
  imports Complex_Main "HOL-Library.Char_ord" "HOL-Library.List_Lexorder" "HOL-Library.Multiset"
begin

section \<open>The distance-table assembler of the notebook arbre\_phylogenetique\<close>

text \<open>
  The notebook has two code cells that matter. The first lists a directory, reads every
  file in sorted filename order, splits each line at the tab character, stores the third
  field in the dictionary \<open>dist\<close> under the key (first field, second field) and collects the
  two names in the list \<open>names\<close>, which it sorts at the end. The second builds the list of
  lists \<open>matrix\<close> by probing \<open>dist\<close> with both orientations of each pair of names.

  Python strings are modelled as \<open>string\<close> with the lexicographic order on character
  codes, which is the order \<open>sorted\<close> uses (for text outside ASCII, read a string as its
  UTF-8 bytes: their order is the order of the code points). The dictionary is a map, the
  two lists are lists, every exception is a value of \<open>error\<close>. The directory is taken to
  exist: \<open>os.listdir\<close> returns the list \<open>files\<close>, in any order. The variable \<open>dist\<close>
  of the notebook is written \<open>distm\<close>, since \<open>dist\<close> is the metric of the library.
\<close>

subsection \<open>Data\<close>

datatype error = OSError | IndexError | ValueError

text \<open>
  A matrix entry is either \<open>float(s)\<close> for a stored string \<open>s\<close> or the integer literal
  \<open>0\<close> that the last branch appends.
\<close>

datatype 'v cell = PyFloat 'v | PyInt int

type_synonym distmap = "string \<times> string \<rightharpoonup> string"

type_synonym pstate = "distmap \<times> string list"

text \<open>The directory: what \<open>open\<close> yields for a file name, \<open>None\<close> when it raises.\<close>

type_synonym filesystem = "string \<rightharpoonup> string"

abbreviation TAB :: char where "TAB \<equiv> CHR 0x09"

abbreviation NL :: char where "NL \<equiv> CHR 0x0A"

subsection \<open>The runtime operations the cells call\<close>

text \<open>
  \<open>for line in distfile\<close>: the text of the file, as text mode delivers it, cut after
  every newline; each line keeps its newline, the last one may lack it, an empty file has
  no line.
\<close>

fun file_lines :: "string \<Rightarrow> string list" where
  "file_lines [] = []"
| "file_lines (c # cs) =
     (if c = NL then [c] # file_lines cs
      else (case file_lines cs of
              [] \<Rightarrow> [[c]]
            | l # ls \<Rightarrow> (c # l) # ls))"

text \<open>
  \<open>line.split('\t')\<close>: the fields between tab characters; the result always has at
  least one element.
\<close>

fun split_tab :: "string \<Rightarrow> string list" where
  "split_tab [] = [[]]"
| "split_tab (c # cs) =
     (if c = TAB then [] # split_tab cs
      else (case split_tab cs of
              [] \<Rightarrow> [[c]]
            | l # ls \<Rightarrow> (c # l) # ls))"

text \<open>
  \<open>float\<close> is a builtin of the language and not code of the notebook: every function
  below takes it as the parameter \<open>pyfloat\<close>, \<open>None\<close> standing for \<open>ValueError\<close>, and
  the general theorems hold for every such function. The closed examples instantiate it
  with \<open>decimal_float\<close>, which reads a plain decimal numeral (digits, at most one point,
  surrounding blanks ignored) as the rational number it denotes and rejects every other
  string; it is used only at strings on which it agrees with the builtin up to rounding.
\<close>

definition is_digit :: "char \<Rightarrow> bool" where
  "is_digit c = (c \<in> set ''0123456789'')"

definition is_blank :: "char \<Rightarrow> bool" where
  "is_blank c = (c = CHR '' '' \<or> c = TAB \<or> c = NL \<or> c = CHR 0x0D)"

definition digit_val :: "char \<Rightarrow> nat" where
  "digit_val c = of_char c - 48"

definition digits_val :: "string \<Rightarrow> nat" where
  "digits_val ds = foldl (\<lambda>n c. 10 * n + digit_val c) 0 ds"

definition strip :: "string \<Rightarrow> string" where
  "strip s = rev (dropWhile is_blank (rev (dropWhile is_blank s)))"

definition decimal_float :: "string \<Rightarrow> rat option" where
  "decimal_float s =
     (let t = strip s;
          ip = takeWhile is_digit t;
          r = dropWhile is_digit t
      in case r of
           [] \<Rightarrow> if ip = [] then None else Some (of_nat (digits_val ip))
         | c # fp \<Rightarrow>
             if c = CHR ''.'' \<and> list_all is_digit fp \<and> (ip \<noteq> [] \<or> fp \<noteq> [])
             then Some (of_nat (digits_val (ip @ fp)) / 10 ^ length fp)
             else None)"

subsection \<open>Parse phase\<close>

text \<open>
  The body of the inner loop. \<open>liste[2]\<close> raises \<open>IndexError\<close> when the line has fewer
  than three fields; nothing is stored in that case.
\<close>

definition process_line :: "string \<Rightarrow> pstate \<Rightarrow> error + pstate" where
  "process_line line st =
     (case st of (distm, names) \<Rightarrow>
        let liste = split_tab line in
        if length liste < 3 then Inl IndexError
        else
          let distm' = distm((liste ! 0, liste ! 1) \<mapsto> liste ! 2);
              names' = (if liste ! 0 \<notin> set names then names @ [liste ! 0] else names);
              names'' = (if liste ! 1 \<notin> set names' then names' @ [liste ! 1] else names')
          in Inr (distm', names''))"

text \<open>\<open>for line in distfile\<close>\<close>

fun parse_lines :: "string list \<Rightarrow> pstate \<Rightarrow> error + pstate" where
  "parse_lines [] st = Inr st"
| "parse_lines (line # rest) st =
     (case process_line line st of
        Inl e \<Rightarrow> Inl e
      | Inr st' \<Rightarrow> parse_lines rest st')"

text \<open>\<open>for file in sorted(files)\<close>, the list being sorted by the caller\<close>

fun parse_files :: "filesystem \<Rightarrow> string list \<Rightarrow> pstate \<Rightarrow> error + pstate" where
  "parse_files fs [] st = Inr st"
| "parse_files fs (file # rest) st =
     (case fs file of
        None \<Rightarrow> Inl OSError
      | Some content \<Rightarrow>
          (case parse_lines (file_lines content) st of
             Inl e \<Rightarrow> Inl e
           | Inr st' \<Rightarrow> parse_files fs rest st'))"

text \<open>
  The whole first cell: \<open>files\<close> is the directory listing in the order the system gives
  it; the result is \<open>dist\<close> and the sorted \<open>names\<close>.
\<close>

definition parse_phase :: "filesystem \<Rightarrow> string list \<Rightarrow> error + pstate" where
  "parse_phase fs files =
     (case parse_files fs (sort files) (Map.empty, []) of
        Inl e \<Rightarrow> Inl e
      | Inr (distm, names) \<Rightarrow> Inr (distm, sort names))"

subsection \<open>Matrix phase\<close>

text \<open>The \<open>if key in dist / elif key2 in dist / else\<close> chain.\<close>

definition lookup_cell ::
  "(string \<Rightarrow> 'v option) \<Rightarrow> distmap \<Rightarrow> string \<Rightarrow> string \<Rightarrow> error + 'v cell" where
  "lookup_cell pyfloat distm nameA nameB =
     (case distm (nameA, nameB) of
        Some s \<Rightarrow> (case pyfloat s of None \<Rightarrow> Inl ValueError | Some v \<Rightarrow> Inr (PyFloat v))
      | None \<Rightarrow>
          (case distm (nameB, nameA) of
             Some s \<Rightarrow> (case pyfloat s of None \<Rightarrow> Inl ValueError | Some v \<Rightarrow> Inr (PyFloat v))
           | None \<Rightarrow> Inr (PyInt 0)))"

text \<open>\<open>for nameB in names\<close>, appending to \<open>dist_tmp\<close>\<close>

fun row_loop ::
  "(string \<Rightarrow> 'v option) \<Rightarrow> distmap \<Rightarrow> string \<Rightarrow> string list \<Rightarrow> 'v cell list
     \<Rightarrow> error + 'v cell list" where
  "row_loop pyfloat distm nameA [] dist_tmp = Inr dist_tmp"
| "row_loop pyfloat distm nameA (nameB # rest) dist_tmp =
     (case lookup_cell pyfloat distm nameA nameB of
        Inl e \<Rightarrow> Inl e
      | Inr c \<Rightarrow> row_loop pyfloat distm nameA rest (dist_tmp @ [c]))"

text \<open>\<open>for nameA in names\<close>, appending to \<open>matrix\<close>\<close>

fun matrix_loop ::
  "(string \<Rightarrow> 'v option) \<Rightarrow> distmap \<Rightarrow> string list \<Rightarrow> string list \<Rightarrow> 'v cell list list
     \<Rightarrow> error + 'v cell list list" where
  "matrix_loop pyfloat distm names [] matrix = Inr matrix"
| "matrix_loop pyfloat distm names (nameA # rest) matrix =
     (case row_loop pyfloat distm nameA names [] of
        Inl e \<Rightarrow> Inl e
      | Inr dist_tmp \<Rightarrow> matrix_loop pyfloat distm names rest (matrix @ [dist_tmp]))"

definition matrix_phase ::
  "(string \<Rightarrow> 'v option) \<Rightarrow> distmap \<Rightarrow> string list \<Rightarrow> error + 'v cell list list" where
  "matrix_phase pyfloat distm names = matrix_loop pyfloat distm names names []"

text \<open>Both cells in sequence: the arguments passed to \<open>DistanceMatrix(matrix, names)\<close>.\<close>

definition assemble ::
  "(string \<Rightarrow> 'v option) \<Rightarrow> filesystem \<Rightarrow> string list
     \<Rightarrow> error + (string list \<times> 'v cell list list)" where
  "assemble pyfloat fs files =
     (case parse_phase fs files of
        Inl e \<Rightarrow> Inl e
      | Inr (distm, names) \<Rightarrow>
          (case matrix_phase pyfloat distm names of
             Inl e \<Rightarrow> Inl e
           | Inr matrix \<Rightarrow> Inr (names, matrix)))"

subsection \<open>Vocabulary for the statements\<close>

text \<open>All lines of the given files, in reading order.\<close>

definition all_lines :: "filesystem \<Rightarrow> string list \<Rightarrow> string list" where
  "all_lines fs files =
     concat (map (\<lambda>f. case fs f of None \<Rightarrow> [] | Some content \<Rightarrow> file_lines content) files)"

text \<open>Two lines that agree on their first three fields (or on all, when there are fewer).\<close>

definition same_first_three :: "string \<Rightarrow> string \<Rightarrow> bool" where
  "same_first_three l l' = (take 3 (split_tab l) = take 3 (split_tab l'))"

text \<open>The dictionary \<open>dist\<close> when the first cell has run (empty when it raised).\<close>

definition dist_index :: "filesystem \<Rightarrow> string list \<Rightarrow> distmap" where
  "dist_index fs files =
     (case parse_phase fs files of Inl e \<Rightarrow> Map.empty | Inr (distm, names) \<Rightarrow> distm)"

text \<open>Well-formed input: every listed file opens and every line has at least three fields.\<close>

definition well_formed :: "filesystem \<Rightarrow> string list \<Rightarrow> bool" where
  "well_formed fs files =
     ((\<forall>f\<in>set files. fs f \<noteq> None) \<and>
      (\<forall>l\<in>set (all_lines fs files). 3 \<le> length (split_tab l)))"

text \<open>
  A line in the format of the input files: reference, query, distance, p-value and
  matching hashes, separated by tabs and ended by a newline.
\<close>

definition mash_line :: "string \<Rightarrow> string \<Rightarrow> string \<Rightarrow> string \<Rightarrow> string \<Rightarrow> string" where
  "mash_line r q d p h = r @ [TAB] @ q @ [TAB] @ d @ [TAB] @ p @ [TAB] @ h @ [NL]"

text \<open>The example of the specification: two files of one line each.\<close>

definition line_G1_G2 :: string where
  "line_G1_G2 = mash_line ''G1'' ''G2'' ''0.001'' ''0'' ''900/1000''"

definition line_G2_G3 :: string where
  "line_G2_G3 = mash_line ''G2'' ''G3'' ''0.002'' ''0'' ''800/1000''"

definition example_fs :: filesystem where
  "example_fs = [''a.tsv'' \<mapsto> line_G1_G2, ''b.tsv'' \<mapsto> line_G2_G3]"

text \<open>The matrix the specification expects for this example, \<open>0\<close> being the integer.\<close>

definition example_matrix :: "rat cell list list" where
  "example_matrix =
     [[PyInt 0, PyFloat (1 / 1000), PyInt 0],
      [PyFloat (1 / 1000), PyInt 0, PyFloat (2 / 1000)],
      [PyInt 0, PyFloat (2 / 1000), PyInt 0]]"

text \<open>The same two files with other p-values and hash counts.\<close>

definition example_fs_other_columns :: filesystem where
  "example_fs_other_columns =
     [''a.tsv'' \<mapsto> mash_line ''G1'' ''G2'' ''0.001'' ''1e-10'' ''1/1000'',
      ''b.tsv'' \<mapsto> mash_line ''G2'' ''G3'' ''0.002'' ''0.5'' ''77/1000'']"

text \<open>Further small directories: a pair recorded in both orientations, a genome paired
  with itself, a pair recorded twice, a non-numeric distance that a later line overwrites,
  a line of two fields, and a non-numeric distance that stays.\<close>

definition both_orientations_fs :: filesystem where
  "both_orientations_fs =
     [''a.tsv'' \<mapsto> mash_line ''A'' ''B'' ''0.25'' ''0'' ''750/1000'',
      ''b.tsv'' \<mapsto> mash_line ''B'' ''A'' ''0.5'' ''0'' ''500/1000'']"

definition self_pair_fs :: filesystem where
  "self_pair_fs = [''a.tsv'' \<mapsto> mash_line ''A'' ''A'' ''0.5'' ''0'' ''500/1000'']"

definition duplicate_fs :: filesystem where
  "duplicate_fs =
     [''a.tsv'' \<mapsto> mash_line ''A'' ''B'' ''0.25'' ''0'' ''750/1000'',
      ''b.tsv'' \<mapsto> mash_line ''A'' ''B'' ''0.5'' ''0'' ''500/1000'']"

definition overwritten_fs :: filesystem where
  "overwritten_fs =
     [''a.tsv'' \<mapsto> mash_line ''A'' ''B'' ''foo'' ''0'' ''750/1000'' @
                    mash_line ''A'' ''B'' ''0.5'' ''0'' ''500/1000'']"

definition short_line_fs :: filesystem where
  "short_line_fs = [''a.tsv'' \<mapsto> ''A'' @ [TAB] @ ''B'' @ [NL]]"

definition non_numeric_fs :: filesystem where
  "non_numeric_fs = [''a.tsv'' \<mapsto> mash_line ''A'' ''B'' ''foo'' ''0'' ''750/1000'']"

section \<open>Lemmas about the parse phase\<close>

lemma sort_cong_mset: "mset xs = mset ys \<Longrightarrow> sort xs = sort (ys :: 'a::linorder list)"
  by (rule properties_for_sort) simp_all

text \<open>\<open>liste[0]\<close> never raises.\<close>

lemma split_tab_nonempty: "split_tab s \<noteq> []"
  by (induction s) (auto split: list.splits)

lemma all_lines_Nil: "all_lines fs [] = []"
  by (simp add: all_lines_def)

lemma all_lines_Cons:
  "all_lines fs (f # files) =
     (case fs f of None \<Rightarrow> [] | Some content \<Rightarrow> file_lines content) @ all_lines fs files"
  by (simp add: all_lines_def)

lemma parse_files_empty_files:
  "\<forall>f\<in>set files. fs f = Some [] \<Longrightarrow> parse_files fs files st = Inr st"
  by (induction files) simp_all

lemma parse_lines_append:
  "parse_lines (xs @ ys) st =
     (case parse_lines xs st of Inl e \<Rightarrow> Inl e | Inr st' \<Rightarrow> parse_lines ys st')"
  by (induction xs arbitrary: st) (auto split: sum.splits)

text \<open>When every file opens, the two nested loops are one loop over all the lines.\<close>

lemma parse_files_readable:
  "\<forall>f\<in>set files. fs f \<noteq> None \<Longrightarrow>
   parse_files fs files st = parse_lines (all_lines fs files) st"
  by (induction files arbitrary: st)
     (auto simp: all_lines_Nil all_lines_Cons parse_lines_append split: sum.splits)

lemma parse_files_Inr_readable:
  "parse_files fs files st = Inr st' \<Longrightarrow> \<forall>f\<in>set files. fs f \<noteq> None"
  by (induction files arbitrary: st) (auto split: option.splits sum.splits)

lemma process_line_Inl:
  "process_line l st = Inl e \<Longrightarrow> e = IndexError \<and> length (split_tab l) < 3"
  by (auto simp: process_line_def Let_def split: prod.splits if_splits)

lemma process_line_short:
  "length (split_tab l) < 3 \<Longrightarrow> process_line l st = Inl IndexError"
  by (auto simp: process_line_def Let_def split: prod.splits if_splits)

lemma process_line_Inr:
  "3 \<le> length (split_tab l) \<Longrightarrow>
   process_line l (d, ns) =
     Inr (d((split_tab l ! 0, split_tab l ! 1) \<mapsto> split_tab l ! 2),
          (let ns' = (if split_tab l ! 0 \<notin> set ns then ns @ [split_tab l ! 0] else ns)
           in if split_tab l ! 1 \<notin> set ns' then ns' @ [split_tab l ! 1] else ns'))"
  by (simp add: process_line_def Let_def)

lemma parse_lines_Inl: "parse_lines ls st = Inl e \<Longrightarrow> e = IndexError"
  by (induction ls arbitrary: st) (auto split: sum.splits dest: process_line_Inl)

lemma parse_lines_short:
  "l \<in> set ls \<Longrightarrow> length (split_tab l) < 3 \<Longrightarrow> parse_lines ls st = Inl IndexError"
proof (induction ls arbitrary: st)
  case Nil
  then show ?case by simp
next
  case (Cons x xs)
  show ?case
  proof (cases "process_line x st")
    case (Inl e)
    then show ?thesis using process_line_Inl [OF Inl] by simp
  next
    case (Inr st')
    then have "x \<noteq> l"
      using Cons.prems(2) process_line_short [of l st] by auto
    then show ?thesis using Cons Inr by auto
  qed
qed

lemma parse_lines_total:
  "\<forall>l\<in>set ls. 3 \<le> length (split_tab l) \<Longrightarrow> \<exists>st'. parse_lines ls st = Inr st'"
proof (induction ls arbitrary: st)
  case Nil
  then show ?case by simp
next
  case (Cons x xs)
  obtain d ns where st: "st = (d, ns)" by (cases st)
  from Cons.prems have "3 \<le> length (split_tab x)" by simp
  then obtain st1 where "process_line x st = Inr st1"
    using process_line_Inr [of x d ns] st by simp
  then show ?case using Cons by simp
qed

lemma parse_lines_Inr_fields:
  "parse_lines ls st = Inr st' \<Longrightarrow> \<forall>l\<in>set ls. 3 \<le> length (split_tab l)"
  using parse_lines_short [of _ ls st] by (metis not_less sum.distinct(1))

lemma length_ge3: "3 \<le> length xs \<Longrightarrow> \<exists>a b c r. xs = a # b # c # r"
  by (cases xs; cases "tl xs"; cases "tl (tl xs)") auto

lemma process_line_step:
  assumes "process_line l (d, ns) = Inr (d', ns')"
  shows "3 \<le> length (split_tab l)"
    and "d' = d((split_tab l ! 0, split_tab l ! 1) \<mapsto> split_tab l ! 2)"
    and "set ns' = set ns \<union> {split_tab l ! 0, split_tab l ! 1}"
    and "distinct ns \<Longrightarrow> distinct ns'"
proof -
  show len: "3 \<le> length (split_tab l)"
    using assms process_line_short [of l "(d, ns)"] by (cases "length (split_tab l) < 3") auto
  note eq = process_line_Inr [OF len, of d ns]
  show "d' = d((split_tab l ! 0, split_tab l ! 1) \<mapsto> split_tab l ! 2)"
    using assms eq by simp
  show "set ns' = set ns \<union> {split_tab l ! 0, split_tab l ! 1}"
    using assms eq by (auto simp: Let_def split: if_splits)
  show "distinct ns \<Longrightarrow> distinct ns'"
    using assms eq by (auto simp: Let_def split: if_splits)
qed

lemma parse_lines_names:
  "parse_lines ls (d, ns) = Inr (d', ns') \<Longrightarrow>
   set ns' = set ns \<union> (\<Union>l\<in>set ls. {split_tab l ! 0, split_tab l ! 1})"
proof (induction ls arbitrary: d ns)
  case Nil then show ?case by simp
next
  case (Cons x xs)
  from Cons.prems obtain d1 ns1 where
    s1: "process_line x (d, ns) = Inr (d1, ns1)" and s2: "parse_lines xs (d1, ns1) = Inr (d', ns')"
    by (auto split: sum.splits)
  show ?case using Cons.IH [OF s2] process_line_step(3) [OF s1] by auto
qed

lemma parse_lines_distinct:
  "parse_lines ls (d, ns) = Inr (d', ns') \<Longrightarrow> distinct ns \<Longrightarrow> distinct ns'"
proof (induction ls arbitrary: d ns)
  case Nil then show ?case by simp
next
  case (Cons x xs)
  from Cons.prems obtain d1 ns1 where
    s1: "process_line x (d, ns) = Inr (d1, ns1)" and s2: "parse_lines xs (d1, ns1) = Inr (d', ns')"
    by (auto split: sum.splits)
  show ?case using Cons.IH [OF s2] process_line_step(4) [OF s1] Cons.prems(2) by auto
qed

lemma parse_lines_keys_named:
  "parse_lines ls (d, ns) = Inr (d', ns') \<Longrightarrow>
   (\<forall>a b. d (a, b) \<noteq> None \<longrightarrow> a \<in> set ns \<and> b \<in> set ns) \<Longrightarrow>
   (\<forall>a b. d' (a, b) \<noteq> None \<longrightarrow> a \<in> set ns' \<and> b \<in> set ns')"
proof (induction ls arbitrary: d ns)
  case Nil then show ?case by simp
next
  case (Cons x xs)
  from Cons.prems obtain d1 ns1 where
    s1: "process_line x (d, ns) = Inr (d1, ns1)" and s2: "parse_lines xs (d1, ns1) = Inr (d', ns')"
    by (auto split: sum.splits)
  have "\<forall>a b. d1 (a, b) \<noteq> None \<longrightarrow> a \<in> set ns1 \<and> b \<in> set ns1"
    using process_line_step(2,3) [OF s1] Cons.prems(2) by (auto split: if_splits)
  then show ?case by (rule Cons.IH [OF s2])
qed

lemma parse_lines_key_untouched:
  "parse_lines ls (d, ns) = Inr (d', ns') \<Longrightarrow>
   \<forall>l\<in>set ls. take 2 (split_tab l) \<noteq> [a, b] \<Longrightarrow> d' (a, b) = d (a, b)"
proof (induction ls arbitrary: d ns)
  case Nil then show ?case by simp
next
  case (Cons x xs)
  from Cons.prems obtain d1 ns1 where
    s1: "process_line x (d, ns) = Inr (d1, ns1)" and s2: "parse_lines xs (d1, ns1) = Inr (d', ns')"
    by (auto split: sum.splits)
  obtain p q c r where sp: "split_tab x = p # q # c # r"
    using length_ge3 [OF process_line_step(1) [OF s1]] by blast
  have "take 2 (split_tab x) \<noteq> [a, b]" using Cons.prems(2) by simp
  then have "(p, q) \<noteq> (a, b)" using sp by (simp add: numeral_2_eq_2)
  then have "d1 (a, b) = d (a, b)" using process_line_step(2) [OF s1] sp by auto
  moreover have "d' (a, b) = d1 (a, b)" using Cons.IH [OF s2] Cons.prems(2) by simp
  ultimately show ?case by simp
qed

lemma parse_lines_last_write:
  assumes "parse_lines (pre @ l # post) st = Inr (d', ns')"
    and "split_tab l = a # b # v # r"
    and "\<forall>l'\<in>set post. take 2 (split_tab l') \<noteq> [a, b]"
  shows "d' (a, b) = Some v"
proof -
  from assms(1) obtain d0 ns0 where s0: "parse_lines pre st = Inr (d0, ns0)"
    and s1: "parse_lines (l # post) (d0, ns0) = Inr (d', ns')"
    by (auto simp: parse_lines_append split: sum.splits)
  from s1 obtain d1 ns1 where
    p1: "process_line l (d0, ns0) = Inr (d1, ns1)" and p2: "parse_lines post (d1, ns1) = Inr (d', ns')"
    by (auto split: sum.splits)
  have "d1 (a, b) = Some v" using process_line_step(2) [OF p1] assms(2) by simp
  then show ?thesis using parse_lines_key_untouched [OF p2 assms(3)] by simp
qed

lemma set_all_lines:
  "set (all_lines fs files) =
     (\<Union>f\<in>set files. case fs f of None \<Rightarrow> {} | Some content \<Rightarrow> set (file_lines content))"
  by (induction files) (auto simp: all_lines_Nil all_lines_Cons split: option.splits)

lemma set_all_lines_sort: "set (all_lines fs (sort files)) = set (all_lines fs files)"
  by (simp add: set_all_lines)

lemma parse_phase_Inr:
  assumes "parse_phase fs files = Inr (d, names)"
  shows "\<exists>ns0. parse_lines (all_lines fs (sort files)) (Map.empty, []) = Inr (d, ns0) \<and> names = sort ns0"
    and "\<forall>f\<in>set files. fs f \<noteq> None"
proof -
  from assms obtain ns0 where p: "parse_files fs (sort files) (Map.empty, []) = Inr (d, ns0)"
    and n: "names = sort ns0"
    by (auto simp: parse_phase_def split: sum.splits)
  have r: "\<forall>f\<in>set (sort files). fs f \<noteq> None" using parse_files_Inr_readable [OF p] .
  then show "\<forall>f\<in>set files. fs f \<noteq> None" by simp
  show "\<exists>ns0. parse_lines (all_lines fs (sort files)) (Map.empty, []) = Inr (d, ns0) \<and> names = sort ns0"
    using p n parse_files_readable [OF r, of "(Map.empty, [])"] by auto
qed

lemma well_formed_parse_phase:
  assumes "well_formed fs files"
  shows "\<exists>d ns0. parse_lines (all_lines fs (sort files)) (Map.empty, []) = Inr (d, ns0) \<and>
           parse_phase fs files = Inr (d, sort ns0)"
proof -
  have r: "\<forall>f\<in>set (sort files). fs f \<noteq> None" using assms by (simp add: well_formed_def)
  have "\<forall>l\<in>set (all_lines fs (sort files)). 3 \<le> length (split_tab l)"
    using assms by (simp add: well_formed_def set_all_lines_sort)
  then obtain st' where "parse_lines (all_lines fs (sort files)) (Map.empty, []) = Inr st'"
    using parse_lines_total by blast
  then show ?thesis
    using parse_files_readable [OF r, of "(Map.empty, [])"]
    by (cases st') (auto simp: parse_phase_def)
qed

text \<open>The parse phase succeeds on the well-formed inputs and on no other.\<close>

lemma parse_phase_well_formed:
  assumes "parse_phase fs files = Inr (d, names)"
  shows "well_formed fs files"
proof -
  from parse_phase_Inr [OF assms] obtain ns0 where
    "parse_lines (all_lines fs (sort files)) (Map.empty, []) = Inr (d, ns0)" by blast
  from parse_lines_Inr_fields [OF this] show ?thesis
    using parse_phase_Inr(2) [OF assms] by (simp add: well_formed_def set_all_lines_sort)
qed

text \<open>A line acts through its first three fields only.\<close>

lemma take3_eq:
  assumes "take 3 xs = take 3 ys"
  shows "length xs < 3 \<longleftrightarrow> length ys < 3"
    and "i < 3 \<Longrightarrow> xs ! i = ys ! i"
proof -
  have "min (length xs) 3 = min (length ys) 3"
    using arg_cong [OF assms, of length] by simp
  then show "length xs < 3 \<longleftrightarrow> length ys < 3" by linarith
  show "xs ! i = ys ! i" if "i < 3"
    using arg_cong [OF assms, of "\<lambda>zs. zs ! i"] that by simp
qed

lemma process_line_cong:
  assumes "same_first_three l l'"
  shows "process_line l st = process_line l' st"
proof -
  have t: "take 3 (split_tab l) = take 3 (split_tab l')"
    using assms by (simp add: same_first_three_def)
  have e: "split_tab l ! 0 = split_tab l' ! 0" "split_tab l ! 1 = split_tab l' ! 1"
    "split_tab l ! 2 = split_tab l' ! 2"
    using take3_eq(2) [OF t] by simp_all
  show ?thesis
  proof (cases "length (split_tab l) < 3")
    case True
    then have "length (split_tab l') < 3" using take3_eq(1) [OF t] by simp
    then show ?thesis using True by (simp add: process_line_short)
  next
    case False
    then have len: "3 \<le> length (split_tab l)" and len': "3 \<le> length (split_tab l')"
      using take3_eq(1) [OF t] by simp_all
    obtain d ns where st: "st = (d, ns)" by (cases st)
    show ?thesis
      unfolding st process_line_Inr [OF len] process_line_Inr [OF len'] e ..
  qed
qed

lemma parse_lines_cong:
  "list_all2 same_first_three ls ls' \<Longrightarrow> parse_lines ls st = parse_lines ls' st"
proof (induction ls ls' arbitrary: st rule: list_all2_induct)
  case Nil
  then show ?case by simp
next
  case (Cons x xs y ys)
  then show ?case by (auto simp: process_line_cong [of x y] split: sum.splits)
qed

lemma parse_files_cong:
  "\<forall>f\<in>set files. rel_option (\<lambda>c c'. list_all2 same_first_three (file_lines c) (file_lines c'))
      (fs f) (fs' f) \<Longrightarrow>
   parse_files fs files st = parse_files fs' files st"
proof (induction files arbitrary: st)
  case Nil
  then show ?case by simp
next
  case (Cons f files)
  from Cons.prems have
    r: "rel_option (\<lambda>c c'. list_all2 same_first_three (file_lines c) (file_lines c')) (fs f) (fs' f)"
    and rest: "\<forall>f\<in>set files. rel_option (\<lambda>c c'. list_all2 same_first_three (file_lines c) (file_lines c'))
      (fs f) (fs' f)"
    by simp_all
  show ?case
  proof (cases "fs f")
    case None
    then show ?thesis using r by (cases "fs' f") simp_all
  next
    case (Some c)
    then obtain c' where c': "fs' f = Some c'"
      and l: "list_all2 same_first_three (file_lines c) (file_lines c')"
      using r by (cases "fs' f") simp_all
    show ?thesis
      using Some c' parse_lines_cong [OF l] Cons.IH [OF rest] by (simp split: sum.splits)
  qed
qed

lemma process_line_fields:
  assumes "take 3 (split_tab l) = [a, b, v]"
  shows "process_line l (d, ns) =
     Inr (d((a, b) \<mapsto> v),
          (let ns' = (if a \<notin> set ns then ns @ [a] else ns)
           in if b \<notin> set ns' then ns' @ [b] else ns'))"
proof -
  have len: "3 \<le> length (split_tab l)"
    using arg_cong [OF assms, of length] by simp
  have e: "split_tab l ! 0 = a" "split_tab l ! 1 = b" "split_tab l ! 2 = v"
    using arg_cong [OF assms, of "\<lambda>zs. zs ! 0"] arg_cong [OF assms, of "\<lambda>zs. zs ! 1"]
      arg_cong [OF assms, of "\<lambda>zs. zs ! 2"] by simp_all
  show ?thesis unfolding process_line_Inr [OF len] e ..
qed

lemma single_line_file:
  assumes "file_lines c = [l]" and "take 3 (split_tab l) = [a, b, v]"
  shows "parse_lines (file_lines c) (d, ns) =
     Inr (d((a, b) \<mapsto> v),
          (let ns' = (if a \<notin> set ns then ns @ [a] else ns)
           in if b \<notin> set ns' then ns' @ [b] else ns'))"
  using assms process_line_fields [OF assms(2), of d ns] by simp

section \<open>Lemmas about the matrix phase\<close>

lemma matrix_phase_Nil: "matrix_phase pyfloat distm [] = Inr []"
  by (simp add: matrix_phase_def)

lemma lookup_cell_Inl: "lookup_cell pf d a b = Inl e \<Longrightarrow> e = ValueError"
  by (auto simp: lookup_cell_def split: option.splits)

lemma lookup_cell_Inr:
  assumes "lookup_cell pf d a b = Inr c"
  shows "d (a, b) = Some s \<Longrightarrow> \<exists>v. pf s = Some v \<and> c = PyFloat v"
    and "d (a, b) = None \<Longrightarrow> d (b, a) = Some s \<Longrightarrow> \<exists>v. pf s = Some v \<and> c = PyFloat v"
    and "d (a, b) = None \<Longrightarrow> d (b, a) = None \<Longrightarrow> c = PyInt 0"
  using assms by (auto simp: lookup_cell_def split: option.splits)

lemma lookup_cell_not_float:
  "d (a, b) = Some s \<Longrightarrow> pf s = None \<Longrightarrow> lookup_cell pf d a b = Inl ValueError"
  by (simp add: lookup_cell_def)

lemma row_loop_Inr:
  "row_loop pf d a ns acc = Inr row \<Longrightarrow>
   \<exists>cs. row = acc @ cs \<and> list_all2 (\<lambda>b c. lookup_cell pf d a b = Inr c) ns cs"
proof (induction ns arbitrary: acc)
  case Nil then show ?case by simp
next
  case (Cons b bs)
  from Cons.prems obtain c where c: "lookup_cell pf d a b = Inr c"
    and r: "row_loop pf d a bs (acc @ [c]) = Inr row"
    by (auto split: sum.splits)
  from Cons.IH [OF r] obtain cs where "row = (acc @ [c]) @ cs"
    and "list_all2 (\<lambda>b c. lookup_cell pf d a b = Inr c) bs cs" by blast
  then have "row = acc @ (c # cs) \<and> list_all2 (\<lambda>b c. lookup_cell pf d a b = Inr c) (b # bs) (c # cs)"
    using c by simp
  then show ?case by blast
qed

lemma row_loop_Inl: "row_loop pf d a ns acc = Inl e \<Longrightarrow> e = ValueError"
  by (induction ns arbitrary: acc) (auto split: sum.splits dest: lookup_cell_Inl)

lemma matrix_loop_Inr:
  "matrix_loop pf d ns as m = Inr M \<Longrightarrow>
   \<exists>rows. M = m @ rows \<and>
     list_all2 (\<lambda>a row. list_all2 (\<lambda>b c. lookup_cell pf d a b = Inr c) ns row) as rows"
proof (induction as arbitrary: m)
  case Nil then show ?case by simp
next
  case (Cons a as)
  from Cons.prems obtain row where row: "row_loop pf d a ns [] = Inr row"
    and r: "matrix_loop pf d ns as (m @ [row]) = Inr M"
    by (auto split: sum.splits)
  from row_loop_Inr [OF row] have row': "list_all2 (\<lambda>b c. lookup_cell pf d a b = Inr c) ns row"
    by simp
  from Cons.IH [OF r] obtain rows where "M = (m @ [row]) @ rows"
    and "list_all2 (\<lambda>a row. list_all2 (\<lambda>b c. lookup_cell pf d a b = Inr c) ns row) as rows"
    by blast
  then have "M = m @ (row # rows) \<and>
     list_all2 (\<lambda>a row. list_all2 (\<lambda>b c. lookup_cell pf d a b = Inr c) ns row) (a # as) (row # rows)"
    using row' by simp
  then show ?case by blast
qed

lemma matrix_loop_Inl: "matrix_loop pf d ns as m = Inl e \<Longrightarrow> e = ValueError"
  by (induction as arbitrary: m) (auto split: sum.splits dest: row_loop_Inl)

lemma matrix_phase_cells:
  assumes "matrix_phase pf d ns = Inr m"
  shows "length m = length ns"
    and "i < length ns \<Longrightarrow> length (m ! i) = length ns"
    and "i < length ns \<Longrightarrow> j < length ns \<Longrightarrow> lookup_cell pf d (ns ! i) (ns ! j) = Inr (m ! i ! j)"
proof -
  from matrix_loop_Inr [OF assms [unfolded matrix_phase_def]]
  have rows: "list_all2 (\<lambda>a row. list_all2 (\<lambda>b c. lookup_cell pf d a b = Inr c) ns row) ns m"
    by simp
  show len: "length m = length ns" using list_all2_lengthD [OF rows] by simp
  {
    assume i: "i < length ns"
    have row: "list_all2 (\<lambda>b c. lookup_cell pf d (ns ! i) b = Inr c) ns (m ! i)"
      using list_all2_nthD [OF rows i] .
    show "length (m ! i) = length ns" using list_all2_lengthD [OF row] by simp
    assume j: "j < length ns"
    show "lookup_cell pf d (ns ! i) (ns ! j) = Inr (m ! i ! j)"
      using list_all2_nthD [OF row j] .
  }
qed

lemma matrix_phase_fails:
  assumes "a \<in> set ns" "b \<in> set ns" "lookup_cell pf d a b = Inl e"
  shows "matrix_phase pf d ns = Inl ValueError"
proof (cases "matrix_phase pf d ns")
  case (Inl e')
  then show ?thesis using matrix_loop_Inl [of pf d ns ns "[]" e'] by (simp add: matrix_phase_def)
next
  case (Inr m)
  from assms(1,2) obtain i j where "i < length ns" "ns ! i = a" "j < length ns" "ns ! j = b"
    by (auto simp: in_set_conv_nth)
  then show ?thesis using matrix_phase_cells(3) [OF Inr, of i j] assms(3) by simp
qed


text \<open>The matrix phase succeeds when \<open>float\<close> accepts every stored string.\<close>

lemma lookup_cell_total:
  "\<forall>k s. d k = Some s \<longrightarrow> pf s \<noteq> None \<Longrightarrow> \<exists>c. lookup_cell pf d a b = Inr c"
proof -
  assume h: "\<forall>k s. d k = Some s \<longrightarrow> pf s \<noteq> None"
  show ?thesis
  proof (cases "d (a, b)")
    case (Some s)
    then obtain v where "pf s = Some v" using h by fastforce
    then show ?thesis using Some by (simp add: lookup_cell_def)
  next
    case None
    show ?thesis
    proof (cases "d (b, a)")
      case (Some s)
      then obtain v where "pf s = Some v" using h by fastforce
      then show ?thesis using None Some by (simp add: lookup_cell_def)
    next
      case None2: None
      then show ?thesis using None by (simp add: lookup_cell_def)
    qed
  qed
qed

lemma row_loop_total:
  "\<forall>k s. d k = Some s \<longrightarrow> pf s \<noteq> None \<Longrightarrow> \<exists>row. row_loop pf d a ns acc = Inr row"
proof (induction ns arbitrary: acc)
  case Nil
  then show ?case by simp
next
  case (Cons b bs)
  from lookup_cell_total [OF Cons.prems, of a b] obtain c where "lookup_cell pf d a b = Inr c" ..
  then show ?case using Cons.IH [OF Cons.prems, of "acc @ [c]"] by simp
qed

lemma matrix_loop_total:
  "\<forall>k s. d k = Some s \<longrightarrow> pf s \<noteq> None \<Longrightarrow> \<exists>M. matrix_loop pf d ns as m = Inr M"
proof (induction as arbitrary: m)
  case Nil
  then show ?case by simp
next
  case (Cons a as)
  from row_loop_total [OF Cons.prems, of a ns "[]"] obtain row where
    "row_loop pf d a ns [] = Inr row" ..
  then show ?case using Cons.IH [OF Cons.prems, of "m @ [row]"] by simp
qed

section \<open>The two phases together\<close>

lemma assemble_Inr:
  assumes "assemble pf fs files = Inr (names, m)"
  shows "parse_phase fs files = Inr (dist_index fs files, names)"
    and "matrix_phase pf (dist_index fs files) names = Inr m"
  using assms by (auto simp: assemble_def dist_index_def split: sum.splits prod.splits)

lemma dist_index_Some:
  "dist_index fs files k = Some s \<Longrightarrow> \<exists>names. parse_phase fs files = Inr (dist_index fs files, names)"
  by (auto simp: dist_index_def split: sum.splits prod.splits)

lemma parse_phase_keys_named:
  assumes "parse_phase fs files = Inr (d, names)" "d (a, b) = Some s"
  shows "a \<in> set names \<and> b \<in> set names"
proof -
  from parse_phase_Inr(1) [OF assms(1)] obtain ns0 where
    p: "parse_lines (all_lines fs (sort files)) (Map.empty, []) = Inr (d, ns0)" and n: "names = sort ns0"
    by blast
  have "\<forall>a b. d (a, b) \<noteq> None \<longrightarrow> a \<in> set ns0 \<and> b \<in> set ns0"
    by (rule parse_lines_keys_named [OF p]) simp
  then show ?thesis using assms(2) n by auto
qed

lemma parse_phase_names:
  assumes "parse_phase fs files = Inr (d, names)"
  shows "set names = (\<Union>l\<in>set (all_lines fs files). {split_tab l ! 0, split_tab l ! 1})"
    and "distinct names" and "sorted names"
proof -
  from parse_phase_Inr(1) [OF assms(1)] obtain ns0 where
    p: "parse_lines (all_lines fs (sort files)) (Map.empty, []) = Inr (d, ns0)" and n: "names = sort ns0"
    by blast
  show "set names = (\<Union>l\<in>set (all_lines fs files). {split_tab l ! 0, split_tab l ! 1})"
    using parse_lines_names [OF p] n by (simp add: set_all_lines_sort)
  show "distinct names" using parse_lines_distinct [OF p] n by simp
  show "sorted names" using n by simp
qed

lemma parse_phase_last_write:
  assumes "parse_phase fs files = Inr (d, names)"
    and "all_lines fs (sort files) = pre @ l # post"
    and "split_tab l = a # b # v # r"
    and "\<forall>l'\<in>set post. take 2 (split_tab l') \<noteq> [a, b]"
  shows "d (a, b) = Some v"
proof -
  from parse_phase_Inr(1) [OF assms(1)] obtain ns0 where
    p: "parse_lines (all_lines fs (sort files)) (Map.empty, []) = Inr (d, ns0)"
    by blast
  show ?thesis using parse_lines_last_write [OF p [unfolded assms(2)] assms(3,4)] .
qed

lemma parse_phase_never_written:
  assumes "parse_phase fs files = Inr (d, names)"
    and "\<forall>l\<in>set (all_lines fs files). take 2 (split_tab l) \<noteq> [a, b]"
  shows "d (a, b) = None"
proof -
  from parse_phase_Inr(1) [OF assms(1)] obtain ns0 where
    p: "parse_lines (all_lines fs (sort files)) (Map.empty, []) = Inr (d, ns0)"
    by blast
  have "\<forall>l\<in>set (all_lines fs (sort files)). take 2 (split_tab l) \<noteq> [a, b]"
    using assms(2) by (simp add: set_all_lines_sort)
  from parse_lines_key_untouched [OF p this] show ?thesis by simp
qed


text \<open>
  The whole run succeeds on well-formed input whose stored distances \<open>float\<close> accepts:
  the statements below about a run that succeeds are about these inputs.
\<close>

lemma assemble_succeeds:
  assumes "well_formed fs files"
    and "\<forall>k s. dist_index fs files k = Some s \<longrightarrow> pf s \<noteq> None"
  shows "\<exists>names m. assemble pf fs files = Inr (names, m)"
proof -
  from well_formed_parse_phase [OF assms(1)] obtain d ns0 where
    pp: "parse_phase fs files = Inr (d, sort ns0)" by blast
  then have di: "dist_index fs files = d" by (simp add: dist_index_def)
  from matrix_loop_total [OF assms(2) [unfolded di], of "sort ns0" "sort ns0" "[]"]
  obtain M where "matrix_phase pf d (sort ns0) = Inr M" by (auto simp: matrix_phase_def)
  then show ?thesis using pp by (simp add: assemble_def)
qed

section \<open>The examples, evaluated\<close>

lemma example_assemble:
  "assemble decimal_float example_fs [''b.tsv'', ''a.tsv''] = Inr ([''G1'', ''G2'', ''G3''], example_matrix)"
  by code_simp

lemma example_dist_index:
  "dist_index example_fs [''b.tsv'', ''a.tsv''] (''G1'', ''G2'') = Some ''0.001''"
  "dist_index example_fs [''b.tsv'', ''a.tsv''] (''G2'', ''G1'') = None"
  "dist_index example_fs [''b.tsv'', ''a.tsv''] (''G1'', ''G3'') = None"
  "dist_index example_fs [''b.tsv'', ''a.tsv''] (''G3'', ''G1'') = None"
  "dist_index example_fs [''b.tsv'', ''a.tsv''] (''G2'', ''G2'') = None"
  by code_simp+

lemma decimal_float_examples:
  "decimal_float ''0.001'' = Some (1 / 1000)"
  "decimal_float ''0.002'' = Some (2 / 1000)"
  "decimal_float ''0.25'' = Some (1 / 4)"
  "decimal_float ''0.5'' = Some (1 / 2)"
  "decimal_float ''foo'' = None"
  by code_simp+

lemma example_lines:
  "c = line_G1_G2 \<or> c = butlast line_G1_G2 \<Longrightarrow>
     \<exists>l. file_lines c = [l] \<and> take 3 (split_tab l) = [''G1'', ''G2'', ''0.001'']"
  "c = line_G2_G3 \<or> c = butlast line_G2_G3 \<Longrightarrow>
     \<exists>l. file_lines c = [l] \<and> take 3 (split_tab l) = [''G2'', ''G3'', ''0.002'']"
  by (auto simp: line_G1_G2_def line_G2_G3_def mash_line_def)

section \<open>The claims\<close>

text \<open>
  C1, as the code has it. The dictionary is keyed by the ordered pair as read. For every
  run that succeeds and every key \<open>(A, B)\<close> stored with the string \<open>s\<close>: both names are
  in \<open>names\<close>, \<open>float(s)\<close> is defined, the entry at (index A, index B) is \<open>float(s)\<close>,
  and the entry at (index B, index A) is \<open>float(s)\<close> as well when the reverse key
  \<open>(B, A)\<close> is not stored; when it is stored, that entry is the float of the reverse
  key's own string.
\<close>

theorem recorded_distance_entries:
  assumes "assemble pf fs files = Inr (names, m)" and "dist_index fs files (A, B) = Some s"
  shows "A \<in> set names \<and> B \<in> set names \<and>
    (\<exists>v. pf s = Some v \<and>
      (\<forall>i j. i < length names \<and> j < length names \<and> names ! i = A \<and> names ! j = B \<longrightarrow>
         m ! i ! j = PyFloat v \<and>
         (dist_index fs files (B, A) = None \<longrightarrow> m ! j ! i = PyFloat v) \<and>
         (\<forall>s'. dist_index fs files (B, A) = Some s' \<longrightarrow>
            (\<exists>v'. pf s' = Some v' \<and> m ! j ! i = PyFloat v'))))"
proof -
  note pp = assemble_Inr(1) [OF assms(1)]
  note mp = assemble_Inr(2) [OF assms(1)]
  have mem: "A \<in> set names \<and> B \<in> set names"
    using parse_phase_keys_named [OF pp assms(2)] .
  then obtain i0 j0 where ij: "i0 < length names" "names ! i0 = A" "j0 < length names" "names ! j0 = B"
    by (auto simp: in_set_conv_nth)
  from lookup_cell_Inr(1) [OF matrix_phase_cells(3) [OF mp ij(1,3)], of s] ij assms(2)
  obtain v where v: "pf s = Some v" by auto
  have "m ! i ! j = PyFloat v \<and>
         (dist_index fs files (B, A) = None \<longrightarrow> m ! j ! i = PyFloat v) \<and>
         (\<forall>s'. dist_index fs files (B, A) = Some s' \<longrightarrow>
            (\<exists>v'. pf s' = Some v' \<and> m ! j ! i = PyFloat v'))"
    if h: "i < length names" "j < length names" "names ! i = A" "names ! j = B" for i j
  proof -
    note c1 = matrix_phase_cells(3) [OF mp h(1,2)]
    note c2 = matrix_phase_cells(3) [OF mp h(2,1)]
    have "m ! i ! j = PyFloat v"
      using lookup_cell_Inr(1) [OF c1, of s] h assms(2) v by simp
    moreover have "dist_index fs files (B, A) = None \<longrightarrow> m ! j ! i = PyFloat v"
      using lookup_cell_Inr(2) [OF c2, of s] h assms(2) v by simp
    moreover have "\<forall>s'. dist_index fs files (B, A) = Some s' \<longrightarrow>
            (\<exists>v'. pf s' = Some v' \<and> m ! j ! i = PyFloat v')"
      using lookup_cell_Inr(1) [OF c2] h by simp
    ultimately show ?thesis by blast
  qed
  then show ?thesis using mem v by blast
qed

theorem recorded_distance_entries_witness:
  "assemble decimal_float example_fs [''b.tsv'', ''a.tsv''] = Inr ([''G1'', ''G2'', ''G3''], example_matrix) \<and>
   dist_index example_fs [''b.tsv'', ''a.tsv''] (''G1'', ''G2'') = Some ''0.001'' \<and>
   dist_index example_fs [''b.tsv'', ''a.tsv''] (''G2'', ''G1'') = None \<and>
   decimal_float ''0.001'' = Some (1 / 1000) \<and>
   example_matrix ! 0 ! 1 = PyFloat (1 / 1000) \<and>
   example_matrix ! 1 ! 0 = PyFloat (1 / 1000)"
proof -
  from recorded_distance_entries [OF example_assemble example_dist_index(1)]
  obtain v where v: "decimal_float ''0.001'' = Some v"
    and e: "\<forall>i j. i < length [''G1'', ''G2'', ''G3''] \<and> j < length [''G1'', ''G2'', ''G3''] \<and>
          [''G1'', ''G2'', ''G3''] ! i = ''G1'' \<and> [''G1'', ''G2'', ''G3''] ! j = ''G2'' \<longrightarrow>
         example_matrix ! i ! j = PyFloat v \<and>
         (dist_index example_fs [''b.tsv'', ''a.tsv''] (''G2'', ''G1'') = None \<longrightarrow>
            example_matrix ! j ! i = PyFloat v) \<and>
         (\<forall>s'. dist_index example_fs [''b.tsv'', ''a.tsv''] (''G2'', ''G1'') = Some s' \<longrightarrow>
            (\<exists>v'. decimal_float s' = Some v' \<and> example_matrix ! j ! i = PyFloat v'))"
    by blast
  have v': "v = 1 / 1000" using v decimal_float_examples(1) by simp
  have "example_matrix ! 0 ! 1 = PyFloat v \<and> example_matrix ! 1 ! 0 = PyFloat v"
    using e [rule_format, of 0 1] example_dist_index(2) by simp
  then show ?thesis
    using v' example_assemble example_dist_index(1,2) decimal_float_examples(1) by simp
qed

text \<open>
  C1 as stated fails: with \<open>A B 0.25\<close> in one file and \<open>B A 0.5\<close> in another, both
  keys are stored, and the matrix has 0.25 at (A, B) and 0.5 at (B, A).
\<close>

theorem symmetry_counterexample:
  "assemble decimal_float both_orientations_fs [''a.tsv'', ''b.tsv''] =
     Inr ([''A'', ''B''], [[PyInt 0, PyFloat (1 / 4)], [PyFloat (1 / 2), PyInt 0]]) \<and>
   [[PyInt 0, PyFloat (1 / 4)], [PyFloat (1 / 2), PyInt 0]] ! 0 ! 1 \<noteq>
   [[PyInt 0, PyFloat (1 / 4 :: rat)], [PyFloat (1 / 2), PyInt 0]] ! 1 ! 0"
proof -
  have "assemble decimal_float both_orientations_fs [''a.tsv'', ''b.tsv''] =
     Inr ([''A'', ''B''], [[PyInt 0, PyFloat (1 / 4)], [PyFloat (1 / 2), PyInt 0]])"
    by code_simp
  then show ?thesis by simp
qed

text \<open>
  C2, as the code has it. For every run that succeeds and every name \<open>A\<close> of \<open>names\<close>:
  when no line has \<open>A\<close> in both of its first two fields, the diagonal entry is the
  integer \<open>0\<close> of the last branch; when the key \<open>(A, A)\<close> is stored, the diagonal entry
  is the float of the stored string.
\<close>

theorem diagonal_entry:
  assumes "assemble pf fs files = Inr (names, m)" and "i < length names"
  shows "((\<forall>l\<in>set (all_lines fs files). take 2 (split_tab l) \<noteq> [names ! i, names ! i]) \<longrightarrow>
            m ! i ! i = PyInt 0) \<and>
         (\<forall>s. dist_index fs files (names ! i, names ! i) = Some s \<longrightarrow>
            (\<exists>v. pf s = Some v \<and> m ! i ! i = PyFloat v))"
proof -
  note pp = assemble_Inr(1) [OF assms(1)]
  note cell = matrix_phase_cells(3) [OF assemble_Inr(2) [OF assms(1)] assms(2,2)]
  have "m ! i ! i = PyInt 0"
    if "\<forall>l\<in>set (all_lines fs files). take 2 (split_tab l) \<noteq> [names ! i, names ! i]"
    using lookup_cell_Inr(3) [OF cell] parse_phase_never_written [OF pp that] by simp
  then show ?thesis using lookup_cell_Inr(1) [OF cell] by blast
qed

theorem diagonal_entry_witness:
  "assemble decimal_float example_fs [''b.tsv'', ''a.tsv''] = Inr ([''G1'', ''G2'', ''G3''], example_matrix) \<and>
   list_all (\<lambda>l. take 2 (split_tab l) \<noteq> [''G1'', ''G1''])
     (all_lines example_fs [''b.tsv'', ''a.tsv'']) \<and>
   example_matrix ! 0 ! 0 = PyInt 0"
proof -
  have h: "list_all (\<lambda>l. take 2 (split_tab l) \<noteq> [''G1'', ''G1''])
     (all_lines example_fs [''b.tsv'', ''a.tsv''])"
    by code_simp
  have "example_matrix ! 0 ! 0 = PyInt 0"
    using diagonal_entry [OF example_assemble, of 0] h by (simp add: list_all_iff)
  then show ?thesis using example_assemble h by blast
qed

text \<open>
  C2 as stated fails: the line \<open>A A 0.5\<close> puts 0.5, read from the input, on the
  diagonal.
\<close>

theorem diagonal_counterexample:
  "assemble decimal_float self_pair_fs [''a.tsv''] = Inr ([''A''], [[PyFloat (1 / 2)]]) \<and>
   [[PyFloat (1 / 2 :: rat)]] ! 0 ! 0 \<noteq> PyInt 0 \<and> (1 / 2 :: rat) \<noteq> 0"
proof -
  have "assemble decimal_float self_pair_fs [''a.tsv''] = Inr ([''A''], [[PyFloat (1 / 2)]])"
    by code_simp
  then show ?thesis by simp
qed

text \<open>
  C3. In a run that succeeds the matrix is square over \<open>names\<close>, and the entry in row
  \<open>i\<close> and column \<open>j\<close> is the value stored under \<open>(names[i], names[j])\<close> if that key is
  present, otherwise the value stored under \<open>(names[j], names[i])\<close> if present,
  otherwise the integer \<open>0\<close>. The dictionary holds the third field as a string; the
  entry is its \<open>float\<close>, which is defined in a run that succeeds.
\<close>

theorem matrix_entry_lookup:
  assumes "assemble pf fs files = Inr (names, m)" and "i < length names" and "j < length names"
  shows "length m = length names \<and> length (m ! i) = length names \<and>
    (\<forall>s. dist_index fs files (names ! i, names ! j) = Some s \<longrightarrow>
           (\<exists>v. pf s = Some v \<and> m ! i ! j = PyFloat v)) \<and>
    (\<forall>s. dist_index fs files (names ! i, names ! j) = None \<and>
         dist_index fs files (names ! j, names ! i) = Some s \<longrightarrow>
           (\<exists>v. pf s = Some v \<and> m ! i ! j = PyFloat v)) \<and>
    (dist_index fs files (names ! i, names ! j) = None \<and>
     dist_index fs files (names ! j, names ! i) = None \<longrightarrow> m ! i ! j = PyInt 0)"
proof -
  note mp = assemble_Inr(2) [OF assms(1)]
  note cell = matrix_phase_cells(3) [OF mp assms(2,3)]
  show ?thesis
    using matrix_phase_cells(1) [OF mp] matrix_phase_cells(2) [OF mp assms(2)]
      lookup_cell_Inr [OF cell] by blast
qed

theorem matrix_entry_lookup_witness:
  "assemble decimal_float example_fs [''b.tsv'', ''a.tsv''] = Inr ([''G1'', ''G2'', ''G3''], example_matrix) \<and>
   length example_matrix = 3 \<and>
   example_matrix ! 0 ! 1 = PyFloat (1 / 1000) \<and>
   example_matrix ! 1 ! 0 = PyFloat (1 / 1000) \<and>
   example_matrix ! 0 ! 2 = PyInt 0"
proof -
  note a = example_assemble
  have len: "length example_matrix = 3"
    using matrix_entry_lookup [OF a, of 0 0] by simp
  have "\<exists>v. decimal_float ''0.001'' = Some v \<and> example_matrix ! 0 ! 1 = PyFloat v"
    using matrix_entry_lookup [OF a, of 0 1] example_dist_index(1) by simp
  then have e01: "example_matrix ! 0 ! 1 = PyFloat (1 / 1000)"
    using decimal_float_examples(1) by (metis option.inject)
  have "\<exists>v. decimal_float ''0.001'' = Some v \<and> example_matrix ! 1 ! 0 = PyFloat v"
    using matrix_entry_lookup [OF a, of 1 0] example_dist_index(1,2) by simp
  then have e10: "example_matrix ! 1 ! 0 = PyFloat (1 / 1000)"
    using decimal_float_examples(1) by (metis option.inject)
  have e02: "example_matrix ! 0 ! 2 = PyInt 0"
    using matrix_entry_lookup [OF a, of 0 2] example_dist_index(3,4) by simp
  show ?thesis using a len e01 e10 e02 by blast
qed

text \<open>
  C4, as the code has it. The dictionary holds one value for each ordered pair, under
  the key exactly as read. For well-formed input (the parse phase succeeds), reading the
  files in sorted filename order and the lines in file order: the value under \<open>(a, b)\<close>
  is the third field of the last line whose first two fields are \<open>a\<close> and \<open>b\<close> in this
  order, and a key that no line writes is absent.
\<close>

theorem dist_index_last_write:
  assumes "well_formed fs files"
  shows "(\<forall>pre l post a b v r.
            all_lines fs (sort files) = pre @ l # post \<and> split_tab l = a # b # v # r \<and>
            (\<forall>l'\<in>set post. take 2 (split_tab l') \<noteq> [a, b]) \<longrightarrow>
            dist_index fs files (a, b) = Some v) \<and>
         (\<forall>a b. (\<forall>l\<in>set (all_lines fs files). take 2 (split_tab l) \<noteq> [a, b]) \<longrightarrow>
            dist_index fs files (a, b) = None)"
proof -
  from well_formed_parse_phase [OF assms] obtain d ns0 where
    pp: "parse_phase fs files = Inr (d, sort ns0)" by blast
  then have di: "dist_index fs files = d" by (simp add: dist_index_def)
  show ?thesis
    using parse_phase_last_write [OF pp] parse_phase_never_written [OF pp] di by blast
qed

theorem dist_index_last_write_witness:
  "well_formed duplicate_fs [''b.tsv'', ''a.tsv''] \<and>
   all_lines duplicate_fs (sort [''b.tsv'', ''a.tsv'']) =
     [mash_line ''A'' ''B'' ''0.25'' ''0'' ''750/1000''] @
      mash_line ''A'' ''B'' ''0.5'' ''0'' ''500/1000'' # [] \<and>
   dist_index duplicate_fs [''b.tsv'', ''a.tsv''] (''A'', ''B'') = Some ''0.5'' \<and>
   dist_index duplicate_fs [''b.tsv'', ''a.tsv''] (''B'', ''A'') = None"
proof -
  have wf: "well_formed duplicate_fs [''b.tsv'', ''a.tsv'']" by code_simp
  have al: "all_lines duplicate_fs (sort [''b.tsv'', ''a.tsv'']) =
     [mash_line ''A'' ''B'' ''0.25'' ''0'' ''750/1000''] @
      mash_line ''A'' ''B'' ''0.5'' ''0'' ''500/1000'' # []" by code_simp
  have sp: "split_tab (mash_line ''A'' ''B'' ''0.5'' ''0'' ''500/1000'') =
     ''A'' # ''B'' # ''0.5'' # [''0'', ''500/1000'' @ [NL]]" by code_simp
  have no: "list_all (\<lambda>l. take 2 (split_tab l) \<noteq> [''B'', ''A''])
     (all_lines duplicate_fs [''b.tsv'', ''a.tsv''])" by code_simp
  note t = dist_index_last_write [OF wf]
  have "dist_index duplicate_fs [''b.tsv'', ''a.tsv''] (''A'', ''B'') = Some ''0.5''"
    using t [THEN conjunct1, rule_format, OF conjI [OF al conjI [OF sp]]] by simp
  moreover have "dist_index duplicate_fs [''b.tsv'', ''a.tsv''] (''B'', ''A'') = None"
    using t [THEN conjunct2, rule_format, of "''B''" "''A''"] no by (simp add: list_all_iff)
  ultimately show ?thesis using wf al by blast
qed

text \<open>
  C4 as stated fails: \<open>A B 0.25\<close> and \<open>B A 0.5\<close> leave two keys, and so two values, for
  the one unordered pair; the second line neither overwrites the first nor takes its
  orientation.
\<close>

theorem one_value_per_pair_counterexample:
  "dist_index both_orientations_fs [''a.tsv'', ''b.tsv''] (''A'', ''B'') = Some ''0.25'' \<and>
   dist_index both_orientations_fs [''a.tsv'', ''b.tsv''] (''B'', ''A'') = Some ''0.5'' \<and>
   ''0.25'' \<noteq> ''0.5''"
  by code_simp

text \<open>
  C5, as the code has it. A line with fewer than three fields makes the run fail: with
  \<open>IndexError\<close> when every file opens. A line whose third field \<open>float\<close> rejects makes
  the run fail when no later line (in reading order) has the same first two fields: with
  \<open>ValueError\<close>, raised in the matrix phase, when the input is otherwise well-formed.
\<close>

theorem malformed_line_fatal:
  "(l \<in> set (all_lines fs files) \<and> length (split_tab l) < 3 \<longrightarrow>
      (\<exists>e. assemble pf fs files = Inl e) \<and>
      ((\<forall>f\<in>set files. fs f \<noteq> None) \<longrightarrow> assemble pf fs files = Inl IndexError)) \<and>
   (all_lines fs (sort files) = pre @ l' # post \<and> split_tab l' = a # b # s # r \<and>
    pf s = None \<and> (\<forall>x\<in>set post. take 2 (split_tab x) \<noteq> [a, b]) \<longrightarrow>
      (\<exists>e. assemble pf fs files = Inl e) \<and>
      (well_formed fs files \<longrightarrow> assemble pf fs files = Inl ValueError))"
proof -
  have part1: "(\<exists>e. assemble pf fs files = Inl e) \<and>
      ((\<forall>f\<in>set files. fs f \<noteq> None) \<longrightarrow> assemble pf fs files = Inl IndexError)"
    if l: "l \<in> set (all_lines fs files)" "length (split_tab l) < 3"
  proof (cases "\<forall>f\<in>set files. fs f \<noteq> None")
    case True
    then have r: "\<forall>f\<in>set (sort files). fs f \<noteq> None" by simp
    have "l \<in> set (all_lines fs (sort files))" using l(1) by (simp add: set_all_lines_sort)
    then have "parse_files fs (sort files) (Map.empty, []) = Inl IndexError"
      using parse_files_readable [OF r] parse_lines_short [OF _ l(2)] by simp
    then have "assemble pf fs files = Inl IndexError"
      by (simp add: assemble_def parse_phase_def)
    then show ?thesis by simp
  next
    case False
    then have "\<not> (\<forall>f\<in>set (sort files). fs f \<noteq> None)" by simp
    then obtain e where "parse_files fs (sort files) (Map.empty, []) = Inl e"
      using parse_files_Inr_readable [of fs "sort files" "(Map.empty, [])"]
      by (cases "parse_files fs (sort files) (Map.empty, [])") blast+
    then have "assemble pf fs files = Inl e"
      by (simp add: assemble_def parse_phase_def)
    then show ?thesis using False by blast
  qed
  have part2: "(\<exists>e. assemble pf fs files = Inl e) \<and>
      (well_formed fs files \<longrightarrow> assemble pf fs files = Inl ValueError)"
    if h: "all_lines fs (sort files) = pre @ l' # post" "split_tab l' = a # b # s # r"
      "pf s = None" "\<forall>x\<in>set post. take 2 (split_tab x) \<noteq> [a, b]"
  proof (cases "parse_phase fs files")
    case (Inl e)
    then have "assemble pf fs files = Inl e" by (simp add: assemble_def)
    moreover have "\<not> well_formed fs files"
      using well_formed_parse_phase [of fs files] Inl by auto
    ultimately show ?thesis by blast
  next
    case (Inr st)
    obtain d names where st: "st = (d, names)" by (cases st)
    note pp = Inr [unfolded st]
    have k: "d (a, b) = Some s" using parse_phase_last_write [OF pp h(1,2,4)] .
    have mem: "a \<in> set names \<and> b \<in> set names" using parse_phase_keys_named [OF pp k] .
    have "lookup_cell pf d a b = Inl ValueError"
      using k h(3) by (rule lookup_cell_not_float)
    then have "matrix_phase pf d names = Inl ValueError"
      using matrix_phase_fails [of a names b pf d ValueError] mem by blast
    then have "assemble pf fs files = Inl ValueError"
      using pp by (simp add: assemble_def)
    then show ?thesis by simp
  qed
  show ?thesis using part1 part2 by blast
qed

theorem malformed_line_fatal_witness:
  "assemble decimal_float short_line_fs [''a.tsv''] = Inl IndexError \<and>
   assemble decimal_float non_numeric_fs [''a.tsv''] = Inl ValueError"
proof -
  have m1: "''A'' @ [TAB] @ ''B'' @ [NL] \<in> set (all_lines short_line_fs [''a.tsv''])" by code_simp
  have s1: "length (split_tab (''A'' @ [TAB] @ ''B'' @ [NL])) < 3" by code_simp
  have r1: "\<forall>f\<in>set [''a.tsv'']. short_line_fs f \<noteq> None" by code_simp
  have one: "assemble decimal_float short_line_fs [''a.tsv''] = Inl IndexError"
    using malformed_line_fatal [THEN conjunct1, of "''A'' @ [TAB] @ ''B'' @ [NL]" short_line_fs
        "[''a.tsv'']" decimal_float] m1 s1 r1
    by blast
  have al: "all_lines non_numeric_fs (sort [''a.tsv'']) =
      [] @ mash_line ''A'' ''B'' ''foo'' ''0'' ''750/1000'' # []" by code_simp
  have sp: "split_tab (mash_line ''A'' ''B'' ''foo'' ''0'' ''750/1000'') =
      ''A'' # ''B'' # ''foo'' # [''0'', ''750/1000'' @ [NL]]" by code_simp
  have wf: "well_formed non_numeric_fs [''a.tsv'']" by code_simp
  have two: "assemble decimal_float non_numeric_fs [''a.tsv''] = Inl ValueError"
    using malformed_line_fatal [THEN conjunct2, of non_numeric_fs "[''a.tsv'']" "[]"
        "mash_line ''A'' ''B'' ''foo'' ''0'' ''750/1000''" "[]" "''A''" "''B''" "''foo''"
        "[''0'', ''750/1000'' @ [NL]]" decimal_float] al sp wf decimal_float_examples(5)
    by simp
  show ?thesis using one two by simp
qed

text \<open>
  C5 as stated fails: the distance of the line \<open>A B foo\<close> is stored as a string and
  overwritten by the later line \<open>A B 0.5\<close> before anything converts it; the run succeeds
  and the malformed line leaves no trace.
\<close>

theorem overwritten_distance_counterexample:
  "all_lines overwritten_fs [''a.tsv''] =
     [mash_line ''A'' ''B'' ''foo'' ''0'' ''750/1000'', mash_line ''A'' ''B'' ''0.5'' ''0'' ''500/1000''] \<and>
   split_tab (mash_line ''A'' ''B'' ''foo'' ''0'' ''750/1000'') ! 2 = ''foo'' \<and>
   decimal_float ''foo'' = None \<and>
   assemble decimal_float overwritten_fs [''a.tsv''] =
     Inr ([''A'', ''B''], [[PyInt 0, PyFloat (1 / 2)], [PyFloat (1 / 2), PyInt 0]])"
  by code_simp

text \<open>
  C6. For well-formed input the parse phase succeeds, and its list \<open>names\<close> holds
  exactly the strings that occur as first or second field of some line of some file,
  each once, in increasing order.
\<close>

theorem name_set_complete:
  assumes "well_formed fs files"
  shows "\<exists>d names. parse_phase fs files = Inr (d, names) \<and>
           set names = (\<Union>l\<in>set (all_lines fs files). {split_tab l ! 0, split_tab l ! 1}) \<and>
           distinct names \<and> sorted names"
proof -
  from well_formed_parse_phase [OF assms] obtain d ns0 where
    pp: "parse_phase fs files = Inr (d, sort ns0)" by blast
  show ?thesis using pp parse_phase_names [OF pp] by blast
qed

theorem name_set_complete_witness:
  "well_formed example_fs [''b.tsv'', ''a.tsv''] \<and>
   set [''G1'', ''G2'', ''G3''] =
     (\<Union>l\<in>set (all_lines example_fs [''b.tsv'', ''a.tsv'']). {split_tab l ! 0, split_tab l ! 1}) \<and>
   distinct [''G1'', ''G2'', ''G3''] \<and> sorted [''G1'', ''G2'', ''G3'']"
proof -
  have wf: "well_formed example_fs [''b.tsv'', ''a.tsv'']" by code_simp
  from name_set_complete [OF wf] obtain d names where
    pp: "parse_phase example_fs [''b.tsv'', ''a.tsv''] = Inr (d, names)"
    and n: "set names =
      (\<Union>l\<in>set (all_lines example_fs [''b.tsv'', ''a.tsv'']). {split_tab l ! 0, split_tab l ! 1})"
      "distinct names" "sorted names"
    by blast
  have "names = [''G1'', ''G2'', ''G3'']"
    using pp assemble_Inr(1) [OF example_assemble] by simp
  then show ?thesis using wf n by simp
qed

text \<open>
  C7. For a directory of two files, one holding the line
  \<open>G1 G2 0.001 0 900/1000\<close> and the other the line \<open>G2 G3 0.002 0 800/1000\<close> (with or
  without the final newline, whatever the file names and the order of the listing), the
  result is the names \<open>[G1, G2, G3]\<close> and the matrix
  \<open>[[0, x, 0], [x, 0, y], [0, y, 0]]\<close> with \<open>x = float('0.001')\<close> and
  \<open>y = float('0.002')\<close>.
\<close>

theorem example_scenario:
  assumes "pf ''0.001'' = Some x" and "pf ''0.002'' = Some y"
    and "mset files = {#f1, f2#}"
    and "fs f1 = Some c1" and "c1 = line_G1_G2 \<or> c1 = butlast line_G1_G2"
    and "fs f2 = Some c2" and "c2 = line_G2_G3 \<or> c2 = butlast line_G2_G3"
  shows "assemble pf fs files =
     Inr ([''G1'', ''G2'', ''G3''],
          [[PyInt 0, PyFloat x, PyInt 0],
           [PyFloat x, PyInt 0, PyFloat y],
           [PyInt 0, PyFloat y, PyInt 0]])"
proof -
  from example_lines(1) [OF assms(5)] obtain l1 where
    l1: "file_lines c1 = [l1]" "take 3 (split_tab l1) = [''G1'', ''G2'', ''0.001'']" by blast
  from example_lines(2) [OF assms(7)] obtain l2 where
    l2: "file_lines c2 = [l2]" "take 3 (split_tab l2) = [''G2'', ''G3'', ''0.002'']" by blast
  note p1 = single_line_file [OF l1]
  note p2 = single_line_file [OF l2]
  have "mset files = mset [f1, f2]" using assms(3) by simp
  then have s: "sort files = sort [f1, f2]" by (rule sort_cong_mset)
  have "\<exists>d ns. parse_files fs (sort files) (Map.empty, []) = Inr (d, ns) \<and>
          sort ns = [''G1'', ''G2'', ''G3''] \<and>
          d (''G1'', ''G2'') = Some ''0.001'' \<and> d (''G2'', ''G3'') = Some ''0.002'' \<and>
          d (''G1'', ''G1'') = None \<and> d (''G2'', ''G2'') = None \<and> d (''G3'', ''G3'') = None \<and>
          d (''G2'', ''G1'') = None \<and> d (''G3'', ''G2'') = None \<and>
          d (''G1'', ''G3'') = None \<and> d (''G3'', ''G1'') = None"
  proof (cases "f1 \<le> f2")
    case True
    then have "sort files = [f1, f2]" using s by simp
    then show ?thesis using assms(4,6) p1 p2 by simp
  next
    case False
    then have "sort files = [f2, f1]" using s by simp
    then show ?thesis using assms(4,6) p1 p2 by simp
  qed
  then obtain d ns where pf': "parse_files fs (sort files) (Map.empty, []) = Inr (d, ns)"
    and ns: "sort ns = [''G1'', ''G2'', ''G3'']"
    and d: "d (''G1'', ''G2'') = Some ''0.001''" "d (''G2'', ''G3'') = Some ''0.002''"
          "d (''G1'', ''G1'') = None" "d (''G2'', ''G2'') = None" "d (''G3'', ''G3'') = None"
          "d (''G2'', ''G1'') = None" "d (''G3'', ''G2'') = None"
          "d (''G1'', ''G3'') = None" "d (''G3'', ''G1'') = None"
    by blast
  have pp: "parse_phase fs files = Inr (d, [''G1'', ''G2'', ''G3''])"
    using pf' ns by (simp add: parse_phase_def)
  have "matrix_phase pf d [''G1'', ''G2'', ''G3''] =
      Inr [[PyInt 0, PyFloat x, PyInt 0],
           [PyFloat x, PyInt 0, PyFloat y],
           [PyInt 0, PyFloat y, PyInt 0]]"
    using d assms(1,2) by (simp add: matrix_phase_def lookup_cell_def)
  then show ?thesis using pp by (simp add: assemble_def)
qed

theorem example_scenario_witness:
  "decimal_float ''0.001'' = Some (1 / 1000) \<and> decimal_float ''0.002'' = Some (2 / 1000) \<and>
   mset [''b.tsv'', ''a.tsv''] = {#''a.tsv'', ''b.tsv''#} \<and>
   example_fs ''a.tsv'' = Some line_G1_G2 \<and> example_fs ''b.tsv'' = Some line_G2_G3 \<and>
   assemble decimal_float example_fs [''b.tsv'', ''a.tsv''] =
     Inr ([''G1'', ''G2'', ''G3''],
          [[PyInt 0, PyFloat (1 / 1000), PyInt 0],
           [PyFloat (1 / 1000), PyInt 0, PyFloat (2 / 1000)],
           [PyInt 0, PyFloat (2 / 1000), PyInt 0]])"
proof -
  have m: "mset [''b.tsv'', ''a.tsv''] = {#''a.tsv'', ''b.tsv''#}" by simp
  have a: "example_fs ''a.tsv'' = Some line_G1_G2" by (simp add: example_fs_def)
  have b: "example_fs ''b.tsv'' = Some line_G2_G3" by (simp add: example_fs_def)
  note t = example_scenario [of decimal_float "1 / 1000" "2 / 1000" "[''b.tsv'', ''a.tsv'']"
      "''a.tsv''" "''b.tsv''" example_fs line_G1_G2 line_G2_G3]
  show ?thesis using t m a b decimal_float_examples(1,2) by simp
qed

text \<open>
  C8. Two runs over the same directory give the same names and the same matrix, whatever
  the order in which the listing enumerates the files: the result depends on the listing
  only through its multiset of names. (That one listing gives one result is the
  functionality of \<open>assemble\<close>; any failure is the same in both runs as well.)
\<close>

theorem assemble_listing_order:
  "mset files1 = mset files2 \<Longrightarrow> assemble pyfloat fs files1 = assemble pyfloat fs files2"
  by (simp add: assemble_def parse_phase_def sort_cong_mset [of files1 files2])

theorem assemble_listing_order_witness:
  "mset [''b.tsv'', ''a.tsv''] = mset [''a.tsv'', ''b.tsv''] \<and>
   assemble decimal_float example_fs [''b.tsv'', ''a.tsv''] =
   assemble decimal_float example_fs [''a.tsv'', ''b.tsv'']"
proof -
  have h: "mset [''b.tsv'', ''a.tsv''] = mset [''a.tsv'', ''b.tsv'']" by simp
  show ?thesis
    using h assemble_listing_order [OF h, of decimal_float example_fs] by simp
qed

text \<open>
  C9. Two directories whose files correspond line by line, each line agreeing with its
  counterpart on the first three fields, give the same result (names and matrix, or the
  same error): the fourth and fifth fields are never read.
\<close>

theorem later_fields_irrelevant:
  assumes "\<forall>f\<in>set files.
      rel_option (\<lambda>c c'. list_all2 same_first_three (file_lines c) (file_lines c')) (fs f) (fs' f)"
  shows "assemble pf fs files = assemble pf fs' files"
proof -
  have "\<forall>f\<in>set (sort files).
      rel_option (\<lambda>c c'. list_all2 same_first_three (file_lines c) (file_lines c')) (fs f) (fs' f)"
    using assms by simp
  from parse_files_cong [OF this]
  have "parse_phase fs files = parse_phase fs' files" by (simp add: parse_phase_def)
  then show ?thesis by (simp add: assemble_def)
qed

theorem later_fields_irrelevant_witness:
  "list_all (\<lambda>f. rel_option (\<lambda>c c'. list_all2 same_first_three (file_lines c) (file_lines c'))
      (example_fs f) (example_fs_other_columns f)) [''b.tsv'', ''a.tsv''] \<and>
   assemble decimal_float example_fs_other_columns [''b.tsv'', ''a.tsv''] =
     Inr ([''G1'', ''G2'', ''G3''], example_matrix)"
proof -
  have h: "list_all (\<lambda>f. rel_option (\<lambda>c c'. list_all2 same_first_three (file_lines c) (file_lines c'))
      (example_fs f) (example_fs_other_columns f)) [''b.tsv'', ''a.tsv'']"
    by code_simp
  then have "assemble decimal_float example_fs [''b.tsv'', ''a.tsv''] =
      assemble decimal_float example_fs_other_columns [''b.tsv'', ''a.tsv'']"
    using later_fields_irrelevant [of "[''b.tsv'', ''a.tsv'']" example_fs example_fs_other_columns decimal_float]
    by (simp add: list_all_iff)
  then show ?thesis using h example_assemble by simp
qed

text \<open>
  C10. For a directory with no file, or whose files all have no line, both cells run to
  the end and leave the empty list of names and the empty matrix, the two arguments of
  the call of \<open>DistanceMatrix\<close> that follows.
\<close>

theorem assemble_empty_input:
  "\<forall>f\<in>set files. fs f = Some [] \<Longrightarrow> assemble pyfloat fs files = Inr ([], [])"
proof -
  assume "\<forall>f\<in>set files. fs f = Some []"
  then have "\<forall>f\<in>set (sort files). fs f = Some []" by simp
  then have "parse_files fs (sort files) (Map.empty, []) = Inr (Map.empty, [])"
    by (rule parse_files_empty_files)
  then show ?thesis by (simp add: assemble_def parse_phase_def matrix_phase_Nil)
qed

theorem assemble_empty_input_witness:
  "assemble decimal_float Map.empty [] = Inr ([], []) \<and>
   assemble decimal_float [''x.tsv'' \<mapsto> [], ''y.tsv'' \<mapsto> []] [''y.tsv'', ''x.tsv''] = Inr ([], [])"
proof -
  have "assemble decimal_float Map.empty [] = Inr ([], [])"
    using assemble_empty_input [of "[]" Map.empty decimal_float] by simp
  moreover have "assemble decimal_float [''x.tsv'' \<mapsto> [], ''y.tsv'' \<mapsto> []] [''y.tsv'', ''x.tsv'']
      = Inr ([], [])"
    using assemble_empty_input
      [of "[''y.tsv'', ''x.tsv'']" "[''x.tsv'' \<mapsto> [], ''y.tsv'' \<mapsto> []]" decimal_float]
    by simp
  ultimately show ?thesis by simp
qed

end
